theory Spec2Isabelle
  imports Main "HOL-Library.Sublist"
begin

section \<open>Values, dictionaries and exceptions\<close>

text \<open>
  The paper records of \<^verbatim>\<open>arxiv_paper.py\<close> are Python dictionaries that are also
  written to and read back from a JSON file, so one type of JSON-like values serves for
  the records in memory and for the parsed store. A dictionary is an association list in
  insertion order. Booleans and floating-point numbers do not occur in the records this
  program handles and are left out of the type, so Python's equality on the hashable
  values below is structural equality.

  A string is a list of characters. Strings are compared, taken apart at a slash and
  searched for an ASCII text here; whatever depends on the case or the whitespace
  characters of Unicode is left to the methods of Python's strings, which the model
  takes as parameters.
\<close>

datatype json =
    JNull
  | JNum int
  | JStr string
  | JArr "json list"
  | JObj "(string \<times> json) list"

text \<open>
  The exceptions that can leave the functions modelled. \<open>ServiceError\<close> stands for
  whatever an external service raises, \<open>Exception\<close> for the plain exceptions that
  \<^verbatim>\<open>lark_table.py\<close> builds itself, with a fixed text in place of the formatted one.
\<close>

datatype error =
    KeyError string
  | TypeError
  | AttributeError
  | IndexError
  | JSONDecodeError
  | HTTPError int
  | ServiceError string
  | Exception string

text \<open>\<^verbatim>\<open>obj[key]\<close> with a string key: only a dictionary can be subscripted by a string.\<close>

fun getitem :: "json \<Rightarrow> string \<Rightarrow> error + json" where
  "getitem (JObj kvs) k = (case map_of kvs k of None \<Rightarrow> Inl (KeyError k) | Some v \<Rightarrow> Inr v)"
| "getitem _ k = Inl TypeError"

text \<open>Lists and dictionaries are unhashable: using one as a set element raises TypeError.\<close>

fun hashable :: "json \<Rightarrow> bool" where
  "hashable (JArr _) = False"
| "hashable (JObj _) = False"
| "hashable _ = True"

text \<open>\<^verbatim>\<open>x in s\<close> for a set \<open>s\<close>: the element is hashed first.\<close>

definition set_contains :: "json set \<Rightarrow> json \<Rightarrow> error + bool" where
  "set_contains s x = (if hashable x then Inr (x \<in> s) else Inl TypeError)"

section \<open>Cross-category deduplication\<close>

text \<open>
  The loop of \<^verbatim>\<open>deduplicate_papers_across_categories\<close>, with its two local variables
  \<^verbatim>\<open>papers_id\<close> and \<^verbatim>\<open>deduplicated_papers\<close> as arguments.
\<close>

fun dedup_loop :: "json list \<Rightarrow> json set \<Rightarrow> json list \<Rightarrow> error + json list" where
  "dedup_loop [] papers_id deduplicated_papers = Inr deduplicated_papers"
| "dedup_loop (paper # papers) papers_id deduplicated_papers =
     (case getitem paper ''id'' of
        Inl e \<Rightarrow> Inl e
      | Inr i \<Rightarrow>
          (case set_contains papers_id i of
             Inl e \<Rightarrow> Inl e
           | Inr seen \<Rightarrow>
               if \<not> seen
               then dedup_loop papers (insert i papers_id) (deduplicated_papers @ [paper])
               else dedup_loop papers papers_id deduplicated_papers))"

definition deduplicate_papers_across_categories :: "json list \<Rightarrow> error + json list" where
  "deduplicate_papers_across_categories papers = dedup_loop papers {} []"

subsection \<open>Vocabulary of the statements\<close>

text \<open>A well-formed paper is a dictionary with a hashable \<^verbatim>\<open>id\<close>.\<close>

definition has_id :: "json \<Rightarrow> bool" where
  "has_id p = (case getitem p ''id'' of Inl e \<Rightarrow> False | Inr i \<Rightarrow> hashable i)"

definition id_of :: "json \<Rightarrow> json" where
  "id_of p = (case getitem p ''id'' of Inl e \<Rightarrow> JNull | Inr i \<Rightarrow> i)"

text \<open>The papers of a list whose id is neither in \<open>seen\<close> nor carried by an earlier paper.\<close>

fun first_occurrences :: "json set \<Rightarrow> json list \<Rightarrow> json list" where
  "first_occurrences seen [] = []"
| "first_occurrences seen (p # ps) =
     (if id_of p \<in> seen then first_occurrences seen ps
      else p # first_occurrences (insert (id_of p) seen) ps)"

subsection \<open>The loop computes the first occurrences\<close>

lemma dedup_loop_first_occurrences:
  "list_all has_id ps \<Longrightarrow> dedup_loop ps seen acc = Inr (acc @ first_occurrences seen ps)"
proof (induction ps arbitrary: seen acc)
  case Nil
  show ?case by simp
next
  case (Cons p ps)
  from Cons.prems have hp: "has_id p" and hps: "list_all has_id ps" by simp_all
  from hp obtain i where gi: "getitem p ''id'' = Inr i" and hi: "hashable i"
    by (auto simp: has_id_def split: sum.splits)
  have idp: "id_of p = i" using gi by (simp add: id_of_def)
  show ?case
    using Cons.IH [OF hps] gi hi idp by (simp add: set_contains_def)
qed

lemma dedup_loop_Inr_has_id:
  "dedup_loop ps seen acc = Inr out \<Longrightarrow> list_all has_id ps"
proof (induction ps arbitrary: seen acc)
  case Nil
  show ?case by simp
next
  case (Cons p ps)
  from Cons.prems obtain i where gi: "getitem p ''id'' = Inr i"
    by (cases "getitem p ''id''") auto
  from Cons.prems gi have hi: "hashable i"
    by (cases "hashable i") (auto simp: set_contains_def)
  from Cons.prems gi hi obtain seen' acc' where "dedup_loop ps seen' acc' = Inr out"
    by (cases "i \<in> seen") (auto simp: set_contains_def)
  then have "list_all has_id ps" by (rule Cons.IH)
  moreover have "has_id p" using gi hi by (simp add: has_id_def)
  ultimately show ?case by simp
qed

lemma first_occurrences_subseq: "subseq (first_occurrences seen ps) ps"
  by (induction ps arbitrary: seen) auto

lemma first_occurrences_ids:
  "set (map id_of (first_occurrences seen ps)) = set (map id_of ps) - seen"
  by (induction ps arbitrary: seen) auto

lemma first_occurrences_distinct: "distinct (map id_of (first_occurrences seen ps))"
proof (induction ps arbitrary: seen)
  case Nil
  show ?case by simp
next
  case (Cons p ps)
  have "id_of p \<notin> set (map id_of (first_occurrences (insert (id_of p) seen) ps))"
    unfolding first_occurrences_ids by simp
  with Cons.IH show ?case by simp
qed

lemma first_occurrences_length: "length (first_occurrences seen ps) \<le> length ps"
  by (induction ps arbitrary: seen) (auto intro: le_SucI)

lemma first_occurrences_find:
  "p \<in> set (first_occurrences seen ps) \<Longrightarrow> find (\<lambda>q. id_of q = id_of p) ps = Some p"
proof (induction ps arbitrary: seen)
  case Nil
  then show ?case by simp
next
  case (Cons q ps)
  show ?case
  proof (cases "id_of q \<in> seen")
    case True
    with Cons.prems have mem: "p \<in> set (first_occurrences seen ps)" by simp
    then have "id_of p \<in> set (map id_of (first_occurrences seen ps))" by simp
    then have "id_of p \<notin> seen" unfolding first_occurrences_ids by simp
    with True have "id_of q \<noteq> id_of p" by auto
    with Cons.IH [OF mem] show ?thesis by simp
  next
    case False
    with Cons.prems have "p = q \<or> p \<in> set (first_occurrences (insert (id_of q) seen) ps)"
      by simp
    then show ?thesis
    proof
      assume "p = q"
      then show ?thesis by simp
    next
      assume mem: "p \<in> set (first_occurrences (insert (id_of q) seen) ps)"
      then have "id_of p \<in> set (map id_of (first_occurrences (insert (id_of q) seen) ps))"
        by simp
      then have "id_of p \<noteq> id_of q" unfolding first_occurrences_ids by auto
      with Cons.IH [OF mem] show ?thesis by simp
    qed
  qed
qed

lemma first_occurrences_fixpoint:
  "distinct (map id_of ps) \<Longrightarrow> set (map id_of ps) \<inter> seen = {} \<Longrightarrow>
   first_occurrences seen ps = ps"
  by (induction ps arbitrary: seen) auto

lemma first_occurrences_subset: "set (first_occurrences seen ps) \<subseteq> set ps"
  by (induction ps arbitrary: seen) auto

lemma first_occurrences_has_id:
  "list_all has_id ps \<Longrightarrow> list_all has_id (first_occurrences seen ps)"
  using first_occurrences_subset [of seen ps] by (auto simp: list_all_iff)

lemma first_occurrences_idem:
  "first_occurrences {} (first_occurrences {} ps) = first_occurrences {} ps"
  by (rule first_occurrences_fixpoint) (simp_all add: first_occurrences_distinct)

lemma dedup_across_eq:
  "list_all has_id ps \<Longrightarrow>
   deduplicate_papers_across_categories ps = Inr (first_occurrences {} ps)"
  by (simp add: deduplicate_papers_across_categories_def dedup_loop_first_occurrences)

lemma dedup_across_Inr:
  "deduplicate_papers_across_categories ps = Inr out \<Longrightarrow>
   list_all has_id ps \<and> out = first_occurrences {} ps"
proof -
  assume r: "deduplicate_papers_across_categories ps = Inr out"
  then have h: "list_all has_id ps"
    unfolding deduplicate_papers_across_categories_def by (rule dedup_loop_Inr_has_id)
  with r dedup_across_eq [OF h] show ?thesis by simp
qed

section \<open>Properties of the cross-category deduplicator\<close>

text \<open>
  Claim C3. For every list of papers (dictionaries with a hashable \<^verbatim>\<open>id\<close>, the same id
  possibly several times) \<^verbatim>\<open>deduplicate_papers_across_categories\<close> returns a list in which
  every id of the input occurs exactly once; each retained paper is the first paper of
  the input with its id; the retained papers stand in their input order; and the output
  is no longer than the input. The function is a pure function of its argument.
\<close>

theorem dedup_across_first_occurrence:
  assumes "list_all has_id papers"
  shows "\<exists>out. deduplicate_papers_across_categories papers = Inr out
           \<and> distinct (map id_of out)
           \<and> set (map id_of out) = set (map id_of papers)
           \<and> list_all (\<lambda>p. find (\<lambda>q. id_of q = id_of p) papers = Some p) out
           \<and> subseq out papers
           \<and> length out \<le> length papers"
proof -
  let ?out = "first_occurrences {} papers"
  have "deduplicate_papers_across_categories papers = Inr ?out"
    using assms by (rule dedup_across_eq)
  moreover have "distinct (map id_of ?out)" by (rule first_occurrences_distinct)
  moreover have "set (map id_of ?out) = set (map id_of papers)"
    unfolding first_occurrences_ids by simp
  moreover have "list_all (\<lambda>p. find (\<lambda>q. id_of q = id_of p) papers = Some p) ?out"
    unfolding list_all_iff using first_occurrences_find by blast
  moreover have "subseq ?out papers" by (rule first_occurrences_subseq)
  moreover have "length ?out \<le> length papers" by (rule first_occurrences_length)
  ultimately show ?thesis by blast
qed

theorem dedup_across_first_occurrence_witness:
  "list_all has_id
     [JObj [(''id'', JStr ''1''), (''title'', JStr ''a'')],
      JObj [(''id'', JStr ''2'')],
      JObj [(''id'', JStr ''1''), (''title'', JStr ''b'')]]
   \<and> deduplicate_papers_across_categories
     [JObj [(''id'', JStr ''1''), (''title'', JStr ''a'')],
      JObj [(''id'', JStr ''2'')],
      JObj [(''id'', JStr ''1''), (''title'', JStr ''b'')]]
     = Inr [JObj [(''id'', JStr ''1''), (''title'', JStr ''a'')], JObj [(''id'', JStr ''2'')]]"
proof -
  have h: "list_all has_id
     [JObj [(''id'', JStr ''1''), (''title'', JStr ''a'')],
      JObj [(''id'', JStr ''2'')],
      JObj [(''id'', JStr ''1''), (''title'', JStr ''b'')]]"
    by (simp add: has_id_def)
  from dedup_across_first_occurrence [OF h] obtain out where
    "deduplicate_papers_across_categories
     [JObj [(''id'', JStr ''1''), (''title'', JStr ''a'')],
      JObj [(''id'', JStr ''2'')],
      JObj [(''id'', JStr ''1''), (''title'', JStr ''b'')]] = Inr out"
    by blast
  then show ?thesis
    using h by (simp add: deduplicate_papers_across_categories_def set_contains_def)
qed

text \<open>
  Claim C8. \<^verbatim>\<open>deduplicate_papers_across_categories\<close> is idempotent: applied to its own
  result it returns that result again. When the first application raises, so does the
  composition, with the same exception.
\<close>

theorem dedup_across_idempotent:
  "(case deduplicate_papers_across_categories x of
      Inl e \<Rightarrow> Inl e
    | Inr y \<Rightarrow> deduplicate_papers_across_categories y)
   = deduplicate_papers_across_categories x"
proof (cases "deduplicate_papers_across_categories x")
  case (Inl e)
  then show ?thesis by simp
next
  case (Inr y)
  from dedup_across_Inr [OF Inr] have h: "list_all has_id x" and y: "y = first_occurrences {} x"
    by simp_all
  have "list_all has_id y" unfolding y using h by (rule first_occurrences_has_id)
  then have "deduplicate_papers_across_categories y = Inr (first_occurrences {} y)"
    by (rule dedup_across_eq)
  also have "first_occurrences {} y = y" unfolding y by (rule first_occurrences_idem)
  finally show ?thesis using Inr by simp
qed

theorem dedup_across_idempotent_witness:
  "deduplicate_papers_across_categories
     [JObj [(''id'', JStr ''1'')], JObj [(''id'', JStr ''2'')], JObj [(''id'', JStr ''1'')]]
     = Inr [JObj [(''id'', JStr ''1'')], JObj [(''id'', JStr ''2'')]]
   \<and> deduplicate_papers_across_categories
     [JObj [(''id'', JStr ''1'')], JObj [(''id'', JStr ''2'')]]
     = Inr [JObj [(''id'', JStr ''1'')], JObj [(''id'', JStr ''2'')]]"
proof -
  have a: "deduplicate_papers_across_categories
     [JObj [(''id'', JStr ''1'')], JObj [(''id'', JStr ''2'')], JObj [(''id'', JStr ''1'')]]
     = Inr [JObj [(''id'', JStr ''1'')], JObj [(''id'', JStr ''2'')]]"
    by (simp add: deduplicate_papers_across_categories_def set_contains_def)
  show ?thesis
    using a dedup_across_idempotent
      [of "[JObj [(''id'', JStr ''1'')], JObj [(''id'', JStr ''2'')], JObj [(''id'', JStr ''1'')]]"]
    by simp
qed

section \<open>Keyword filter\<close>

text \<open>
  \<^verbatim>\<open>filter_papers_by_keyword\<close> calls two methods of Python's strings, \<^verbatim>\<open>str.lower()\<close> and
  \<^verbatim>\<open>str.split()\<close>. What they do depends on the case mappings and the whitespace
  characters of the whole Unicode character set, so they are parameters \<open>str_lower\<close> and
  \<open>str_split\<close> of the model. The statements below hold for whatever the two methods
  compute, on any one-to-one representation of Python's strings by lists of
  characters.
\<close>

text \<open>\<^verbatim>\<open>v.lower()\<close> on a value: only a string has the method.\<close>

fun lower_method :: "(string \<Rightarrow> string) \<Rightarrow> json \<Rightarrow> error + string" where
  "lower_method str_lower (JStr s) = Inr (str_lower s)"
| "lower_method str_lower _ = Inl AttributeError"

text \<open>
  The loop of \<^verbatim>\<open>filter_papers_by_keyword\<close>; a non-empty intersection of the two sets is
  what Python's truth test of \<^verbatim>\<open>keyword_set & set(...)\<close> asks for.
\<close>

fun keyword_loop ::
  "(string \<Rightarrow> string) \<Rightarrow> (string \<Rightarrow> string list) \<Rightarrow> string set \<Rightarrow> json list \<Rightarrow> json list
     \<Rightarrow> error + json list"
where
  "keyword_loop str_lower str_split keyword_set [] results = Inr results"
| "keyword_loop str_lower str_split keyword_set (paper # papers) results =
     (case getitem paper ''summary'' of
        Inl e \<Rightarrow> Inl e
      | Inr summary \<Rightarrow>
          (case lower_method str_lower summary of
             Inl e \<Rightarrow> Inl e
           | Inr lowered \<Rightarrow>
               if keyword_set \<inter> set (str_split lowered) \<noteq> {}
               then keyword_loop str_lower str_split keyword_set papers (results @ [paper])
               else keyword_loop str_lower str_split keyword_set papers results))"

definition filter_papers_by_keyword ::
  "(string \<Rightarrow> string) \<Rightarrow> (string \<Rightarrow> string list) \<Rightarrow> json list \<Rightarrow> string list
     \<Rightarrow> error + json list"
where
  "filter_papers_by_keyword str_lower str_split papers keyword_list =
     keyword_loop str_lower str_split (set (map str_lower keyword_list)) papers []"

subsection \<open>The two methods on Latin-1 text\<close>

text \<open>
  On strings whose code points lie below 256, a character standing for its code point,
  the two methods are as follows. \<^verbatim>\<open>lower\<close> maps A to Z and the letters 0xC0 to 0xDE,
  the multiplication sign 0xD7 apart, to the letter 32 places further on, and leaves
  every other character. \<^verbatim>\<open>split\<close> cuts at every run of the whitespace characters 0x09
  to 0x0D, 0x1C to 0x1F, 0x20, 0x85 and 0xA0, and drops empty tokens. They serve as the
  instance on which the statements are run.
\<close>

definition latin1_upper :: string where
  "latin1_upper =
     ''ABCDEFGHIJKLMNOPQRSTUVWXYZ'' @
     [CHR 0xC0, CHR 0xC1, CHR 0xC2, CHR 0xC3, CHR 0xC4, CHR 0xC5, CHR 0xC6, CHR 0xC7,
      CHR 0xC8, CHR 0xC9, CHR 0xCA, CHR 0xCB, CHR 0xCC, CHR 0xCD, CHR 0xCE, CHR 0xCF,
      CHR 0xD0, CHR 0xD1, CHR 0xD2, CHR 0xD3, CHR 0xD4, CHR 0xD5, CHR 0xD6,
      CHR 0xD8, CHR 0xD9, CHR 0xDA, CHR 0xDB, CHR 0xDC, CHR 0xDD, CHR 0xDE]"

definition latin1_lowered :: string where
  "latin1_lowered =
     ''abcdefghijklmnopqrstuvwxyz'' @
     [CHR 0xE0, CHR 0xE1, CHR 0xE2, CHR 0xE3, CHR 0xE4, CHR 0xE5, CHR 0xE6, CHR 0xE7,
      CHR 0xE8, CHR 0xE9, CHR 0xEA, CHR 0xEB, CHR 0xEC, CHR 0xED, CHR 0xEE, CHR 0xEF,
      CHR 0xF0, CHR 0xF1, CHR 0xF2, CHR 0xF3, CHR 0xF4, CHR 0xF5, CHR 0xF6,
      CHR 0xF8, CHR 0xF9, CHR 0xFA, CHR 0xFB, CHR 0xFC, CHR 0xFD, CHR 0xFE]"

definition latin1_char_lower :: "char \<Rightarrow> char" where
  "latin1_char_lower c =
     (case map_of (zip latin1_upper latin1_lowered) c of None \<Rightarrow> c | Some l \<Rightarrow> l)"

definition latin1_lower :: "string \<Rightarrow> string" where
  "latin1_lower s = map latin1_char_lower s"

definition latin1_space :: "char \<Rightarrow> bool" where
  "latin1_space c =
     (c \<in> set [CHR 0x09, CHR 0x0A, CHR 0x0B, CHR 0x0C, CHR 0x0D,
                CHR 0x1C, CHR 0x1D, CHR 0x1E, CHR 0x1F, CHR 0x20, CHR 0x85, CHR 0xA0])"

text \<open>The scan of \<^verbatim>\<open>split\<close>: \<open>tok\<close> is the token read so far.\<close>

fun split_scan :: "string \<Rightarrow> string \<Rightarrow> string list" where
  "split_scan tok [] = (if tok = [] then [] else [tok])"
| "split_scan tok (c # cs) =
     (if latin1_space c
      then (if tok = [] then split_scan [] cs else tok # split_scan [] cs)
      else split_scan (tok @ [c]) cs)"

definition latin1_split :: "string \<Rightarrow> string list" where
  "latin1_split s = split_scan [] s"

text \<open>A string with a whitespace character in it.\<close>

definition latin1_has_space :: "string \<Rightarrow> bool" where
  "latin1_has_space s = list_ex latin1_space s"

subsection \<open>Vocabulary of the statements\<close>

text \<open>A paper with an abstract: a dictionary whose \<^verbatim>\<open>summary\<close> is a string.\<close>

definition has_summary :: "json \<Rightarrow> bool" where
  "has_summary p = (case getitem p ''summary'' of Inr (JStr s) \<Rightarrow> True | _ \<Rightarrow> False)"

text \<open>The whitespace-delimited tokens of the lowercased abstract.\<close>

definition summary_tokens ::
  "(string \<Rightarrow> string) \<Rightarrow> (string \<Rightarrow> string list) \<Rightarrow> json \<Rightarrow> string set"
where
  "summary_tokens str_lower str_split p =
     (case getitem p ''summary'' of
        Inr (JStr s) \<Rightarrow> set (str_split (str_lower s))
      | _ \<Rightarrow> {})"

definition keyword_match ::
  "(string \<Rightarrow> string) \<Rightarrow> (string \<Rightarrow> string list) \<Rightarrow> string list \<Rightarrow> json \<Rightarrow> bool"
where
  "keyword_match str_lower str_split keyword_list p =
     (summary_tokens str_lower str_split p \<inter> set (map str_lower keyword_list) \<noteq> {})"

subsection \<open>The loop is a filter\<close>

lemma has_summaryE:
  assumes "has_summary p"
  obtains s where "getitem p ''summary'' = Inr (JStr s)"
  using assms by (auto simp: has_summary_def split: sum.splits json.splits)

lemma keyword_loop_filter:
  "list_all has_summary ps \<Longrightarrow>
   keyword_loop lw sp (set (map lw ks)) ps acc = Inr (acc @ filter (keyword_match lw sp ks) ps)"
proof (induction ps arbitrary: acc)
  case Nil
  show ?case by simp
next
  case (Cons p ps)
  from Cons.prems have hp: "has_summary p" and hps: "list_all has_summary ps" by simp_all
  from hp obtain s where gs: "getitem p ''summary'' = Inr (JStr s)" by (rule has_summaryE)
  have m: "keyword_match lw sp ks p = (set (map lw ks) \<inter> set (sp (lw s)) \<noteq> {})"
    using gs by (auto simp: keyword_match_def summary_tokens_def)
  show ?case
    using Cons.IH [OF hps] gs m by simp
qed

lemma filter_papers_by_keyword_eq:
  "list_all has_summary ps \<Longrightarrow>
   filter_papers_by_keyword lw sp ps ks = Inr (filter (keyword_match lw sp ks) ps)"
  unfolding filter_papers_by_keyword_def using keyword_loop_filter [of ps lw sp ks "[]"] by simp

subsection \<open>Keywords that hold whitespace\<close>

lemma spaced_keywords_no_match:
  assumes tokens: "\<forall>s. list_all (\<lambda>t. \<not> has_space t) (sp s)"
    and lower: "\<forall>k. has_space k \<longrightarrow> has_space (lw k)"
    and ks: "list_all has_space ks"
  shows "\<not> keyword_match lw sp ks p"
proof
  assume "keyword_match lw sp ks p"
  then obtain t where t: "t \<in> summary_tokens lw sp p" and k: "t \<in> set (map lw ks)"
    by (auto simp: keyword_match_def)
  from k obtain k' where k': "k' \<in> set ks" and tk: "t = lw k'" by auto
  from k' ks have "has_space k'" by (simp add: list_all_iff)
  with lower tk have sp: "has_space t" by simp
  from t obtain s where "t \<in> set (sp s)"
    by (auto simp: summary_tokens_def split: sum.splits json.splits)
  with tokens have "\<not> has_space t" by (auto simp: list_all_iff)
  with sp show False by simp
qed

subsection \<open>The Latin-1 methods\<close>

lemma split_scan_no_space:
  "list_all (\<lambda>c. \<not> latin1_space c) tok \<Longrightarrow> t \<in> set (split_scan tok s) \<Longrightarrow>
   list_all (\<lambda>c. \<not> latin1_space c) t"
proof (induction s arbitrary: tok)
  case Nil
  then show ?case by (auto split: if_splits)
next
  case (Cons c cs)
  show ?case
  proof (cases "latin1_space c")
    case True
    with Cons.prems have "t = tok \<or> t \<in> set (split_scan [] cs)"
      by (auto split: if_splits)
    then show ?thesis
    proof
      assume "t = tok"
      with Cons.prems show ?thesis by simp
    next
      assume "t \<in> set (split_scan [] cs)"
      with Cons.IH [of "[]"] show ?thesis by simp
    qed
  next
    case False
    with Cons.prems have "t \<in> set (split_scan (tok @ [c]) cs)" by simp
    moreover have "list_all (\<lambda>c. \<not> latin1_space c) (tok @ [c])"
      using Cons.prems False by simp
    ultimately show ?thesis using Cons.IH by blast
  qed
qed

lemma latin1_split_no_space: "list_all (\<lambda>t. \<not> latin1_has_space t) (latin1_split s)"
proof -
  have "\<not> latin1_has_space t" if "t \<in> set (latin1_split s)" for t
  proof -
    from that have "t \<in> set (split_scan [] s)" by (simp add: latin1_split_def)
    with split_scan_no_space [of "[]" t s] have "list_all (\<lambda>c. \<not> latin1_space c) t"
      by simp
    then show ?thesis by (simp add: latin1_has_space_def list_all_iff list_ex_iff)
  qed
  then show ?thesis by (simp add: list_all_iff)
qed

lemma latin1_char_lower_space: "latin1_space c \<Longrightarrow> latin1_char_lower c = c"
  by (simp add: latin1_space_def, elim disjE;
      simp add: latin1_char_lower_def latin1_upper_def latin1_lowered_def)

lemma latin1_lower_keeps_space: "latin1_has_space k \<Longrightarrow> latin1_has_space (latin1_lower k)"
  by (auto simp: latin1_has_space_def list_ex_iff latin1_lower_def latin1_char_lower_space
           intro: rev_bexI)

section \<open>Properties of the keyword filter\<close>

text \<open>
  Claim C4. For every list of papers with an abstract and every keyword list,
  \<^verbatim>\<open>filter_papers_by_keyword\<close> retains exactly the papers for which the set of
  whitespace-delimited tokens of the lowercased abstract meets the set of lowercased
  keywords, a keyword counting only as a whole token; with no keyword the result is the
  empty list whatever the papers are; and the result is a subsequence of the input, in
  the input's order. This holds whatever \<^verbatim>\<open>lower\<close> and \<^verbatim>\<open>split\<close> compute.
\<close>

theorem filter_papers_by_keyword_tokens:
  assumes "list_all has_summary P"
  shows "filter_papers_by_keyword str_lower str_split P K
           = Inr (filter (\<lambda>p. summary_tokens str_lower str_split p
                                 \<inter> set (map str_lower K) \<noteq> {}) P)
         \<and> filter_papers_by_keyword str_lower str_split P [] = Inr []
         \<and> (\<exists>out. filter_papers_by_keyword str_lower str_split P K = Inr out \<and> subseq out P)"
proof -
  have m: "(\<lambda>p. summary_tokens str_lower str_split p \<inter> set (map str_lower K) \<noteq> {})
      = keyword_match str_lower str_split K"
    by (rule ext) (simp add: keyword_match_def)
  have a: "filter_papers_by_keyword str_lower str_split P K
      = Inr (filter (keyword_match str_lower str_split K) P)"
    using assms by (rule filter_papers_by_keyword_eq)
  have "filter (keyword_match str_lower str_split []) P = []"
    by (simp add: keyword_match_def)
  with filter_papers_by_keyword_eq [OF assms, of str_lower str_split "[]"]
  have b: "filter_papers_by_keyword str_lower str_split P [] = Inr []" by simp
  have c: "subseq (filter (keyword_match str_lower str_split K) P) P" by simp
  show ?thesis unfolding m using a b c by simp
qed

theorem filter_papers_by_keyword_tokens_witness:
  "list_all has_summary
     [JObj [(''id'', JStr ''1''), (''summary'', JStr ''A  QUANTUM leap'')],
      JObj [(''id'', JStr ''2''), (''summary'', JStr ''Some quantumness'')],
      JObj [(''id'', JStr ''3''), (''summary'', JStr (CHR 0xC9 # ''cole d'' @ CHR 0xE9 # ''t'' @ [CHR 0xE9]))],
      JObj [(''id'', JStr ''4''), (''summary'', JStr (''deep'' @ CHR 0xA0 # ''Learning''))]]
   \<and> filter_papers_by_keyword latin1_lower latin1_split
     [JObj [(''id'', JStr ''1''), (''summary'', JStr ''A  QUANTUM leap'')],
      JObj [(''id'', JStr ''2''), (''summary'', JStr ''Some quantumness'')],
      JObj [(''id'', JStr ''3''), (''summary'', JStr (CHR 0xC9 # ''cole d'' @ CHR 0xE9 # ''t'' @ [CHR 0xE9]))],
      JObj [(''id'', JStr ''4''), (''summary'', JStr (''deep'' @ CHR 0xA0 # ''Learning''))]]
     [''Quantum'', CHR 0xC9 # ''COLE'', ''learning'']
     = Inr [JObj [(''id'', JStr ''1''), (''summary'', JStr ''A  QUANTUM leap'')],
            JObj [(''id'', JStr ''3''), (''summary'', JStr (CHR 0xC9 # ''cole d'' @ CHR 0xE9 # ''t'' @ [CHR 0xE9]))],
            JObj [(''id'', JStr ''4''), (''summary'', JStr (''deep'' @ CHR 0xA0 # ''Learning''))]]
   \<and> filter_papers_by_keyword latin1_lower latin1_split
     [JObj [(''id'', JStr ''1''), (''summary'', JStr ''A  QUANTUM leap'')],
      JObj [(''id'', JStr ''2''), (''summary'', JStr ''Some quantumness'')],
      JObj [(''id'', JStr ''3''), (''summary'', JStr (CHR 0xC9 # ''cole d'' @ CHR 0xE9 # ''t'' @ [CHR 0xE9]))],
      JObj [(''id'', JStr ''4''), (''summary'', JStr (''deep'' @ CHR 0xA0 # ''Learning''))]]
     [] = Inr []"
proof -
  let ?p1 = "JObj [(''id'', JStr ''1''), (''summary'', JStr ''A  QUANTUM leap'')]"
  let ?p2 = "JObj [(''id'', JStr ''2''), (''summary'', JStr ''Some quantumness'')]"
  let ?p3 = "JObj [(''id'', JStr ''3''),
                   (''summary'', JStr (CHR 0xC9 # ''cole d'' @ CHR 0xE9 # ''t'' @ [CHR 0xE9]))]"
  let ?p4 = "JObj [(''id'', JStr ''4''), (''summary'', JStr (''deep'' @ CHR 0xA0 # ''Learning''))]"
  note run = summary_tokens_def latin1_split_def latin1_lower_def latin1_char_lower_def
    latin1_upper_def latin1_lowered_def latin1_space_def
  have h: "list_all has_summary [?p1, ?p2, ?p3, ?p4]"
    by (simp add: has_summary_def)
  have t1: "summary_tokens latin1_lower latin1_split ?p1 = {''a'', ''quantum'', ''leap''}"
    by (simp add: run)
  have t2: "summary_tokens latin1_lower latin1_split ?p2 = {''some'', ''quantumness''}"
    by (simp add: run)
  have t3: "summary_tokens latin1_lower latin1_split ?p3
      = {CHR 0xE9 # ''cole'', ''d'' @ CHR 0xE9 # ''t'' @ [CHR 0xE9]}"
    by (simp add: run)
  have t4: "summary_tokens latin1_lower latin1_split ?p4 = {''deep'', ''learning''}"
    by (simp add: run)
  have k: "map latin1_lower [''Quantum'', CHR 0xC9 # ''COLE'', ''learning'']
      = [''quantum'', CHR 0xE9 # ''cole'', ''learning'']"
    by (simp add: latin1_lower_def latin1_char_lower_def latin1_upper_def latin1_lowered_def)
  show ?thesis
    using h t1 t2 t3 t4 k filter_papers_by_keyword_tokens
      [OF h, of latin1_lower latin1_split "[''Quantum'', CHR 0xC9 # ''COLE'', ''learning'']"]
    by simp
qed

text \<open>
  Claim C10. A keyword is lowercased but never split. Every token that \<^verbatim>\<open>split\<close> returns
  is free of whitespace, and \<^verbatim>\<open>lower\<close> leaves a string that holds whitespace with
  whitespace in it; these two facts about the library are the hypotheses on
  \<open>str_split\<close>, \<open>str_lower\<close> and the test \<open>has_space\<close> for a whitespace character in a
  string. So a keyword list made only of keywords that hold whitespace matches no
  paper, and \<^verbatim>\<open>filter_papers_by_keyword\<close> returns the empty list for every list of papers.
\<close>

theorem filter_papers_by_keyword_spaced_keywords:
  assumes "list_all has_summary P"
    and "\<forall>s. list_all (\<lambda>t. \<not> has_space t) (str_split s)"
    and "\<forall>k. has_space k \<longrightarrow> has_space (str_lower k)"
    and "list_all has_space K"
  shows "filter_papers_by_keyword str_lower str_split P K = Inr []"
proof -
  have "filter (keyword_match str_lower str_split K) P = []"
    using spaced_keywords_no_match [OF assms(2-4)] by (simp add: filter_empty_conv)
  with filter_papers_by_keyword_eq [OF assms(1), of str_lower str_split K]
  show ?thesis by simp
qed

theorem filter_papers_by_keyword_spaced_keywords_witness:
  "list_all has_summary
     [JObj [(''summary'', JStr ''Large language models'')],
      JObj [(''summary'', JStr (''deep'' @ CHR 0xA0 # ''learning''))]]
   \<and> (\<forall>s. list_all (\<lambda>t. \<not> latin1_has_space t) (latin1_split s))
   \<and> list_all latin1_has_space [''language models'', ''deep'' @ CHR 0xA0 # ''learning'']
   \<and> filter_papers_by_keyword latin1_lower latin1_split
        [JObj [(''summary'', JStr ''Large language models'')],
         JObj [(''summary'', JStr (''deep'' @ CHR 0xA0 # ''learning''))]]
        [''language models'', ''deep'' @ CHR 0xA0 # ''learning''] = Inr []"
proof -
  have h: "list_all has_summary
     [JObj [(''summary'', JStr ''Large language models'')],
      JObj [(''summary'', JStr (''deep'' @ CHR 0xA0 # ''learning''))]]"
    by (simp add: has_summary_def)
  have t: "\<forall>s. list_all (\<lambda>t. \<not> latin1_has_space t) (latin1_split s)"
    by (simp add: latin1_split_no_space)
  have l: "\<forall>k. latin1_has_space k \<longrightarrow> latin1_has_space (latin1_lower k)"
    by (simp add: latin1_lower_keeps_space)
  have k: "list_all latin1_has_space [''language models'', ''deep'' @ CHR 0xA0 # ''learning'']"
    by (simp add: latin1_has_space_def latin1_space_def)
  show ?thesis
    using h t k filter_papers_by_keyword_spaced_keywords [OF h t l k] by simp
qed

section \<open>Relevance filter\<close>

text \<open>
  \<^verbatim>\<open>is_paper_match\<close> is imported from the module \<^verbatim>\<open>llm\<close> and calls an external service. It
  is a parameter here: a function of the paper, the topic description and the
  configuration that either raises or returns a truth value. The topic and the
  configuration are passed through untouched, so their types are left open.
\<close>

fun llm_loop ::
  "(json \<Rightarrow> 'q \<Rightarrow> 'c \<Rightarrow> error + bool) \<Rightarrow> json list \<Rightarrow> 'q \<Rightarrow> 'c \<Rightarrow> json list \<Rightarrow> error + json list"
where
  "llm_loop is_paper_match [] paper_to_hunt config results = Inr results"
| "llm_loop is_paper_match (paper # papers) paper_to_hunt config results =
     (case is_paper_match paper paper_to_hunt config of
        Inl e \<Rightarrow> Inl e
      | Inr matched \<Rightarrow>
          if matched
          then llm_loop is_paper_match papers paper_to_hunt config (results @ [paper])
          else llm_loop is_paper_match papers paper_to_hunt config results)"

definition filter_papers_using_llm ::
  "(json \<Rightarrow> 'q \<Rightarrow> 'c \<Rightarrow> error + bool) \<Rightarrow> json list \<Rightarrow> 'q \<Rightarrow> 'c \<Rightarrow> error + json list"
where
  "filter_papers_using_llm is_paper_match papers paper_to_hunt config =
     llm_loop is_paper_match papers paper_to_hunt config []"

text \<open>A match function that fails on the paper with id 1 and accepts every other paper.\<close>

definition match_failing_on_1 :: "json \<Rightarrow> string \<Rightarrow> unit \<Rightarrow> error + bool" where
  "match_failing_on_1 paper paper_to_hunt config =
     (if getitem paper ''id'' = Inr (JStr ''1'') then Inl (ServiceError ''timeout'') else Inr True)"

lemma llm_loop_eq:
  "llm_loop m ps q c acc =
     (case find (\<lambda>p. isl (m p q c)) ps of
        Some p \<Rightarrow> Inl (projl (m p q c))
      | None \<Rightarrow> Inr (acc @ filter (\<lambda>p. m p q c = Inr True) ps))"
proof (induction ps arbitrary: acc)
  case Nil
  show ?case by simp
next
  case (Cons p ps)
  show ?case
  proof (cases "m p q c")
    case (Inl e)
    then show ?thesis by simp
  next
    case (Inr b)
    then show ?thesis using Cons.IH by (cases b) (simp_all split: option.splits)
  qed
qed

section \<open>Properties of the relevance filter\<close>

text \<open>
  Claim C1 asks that a paper on which the match function raises be left out and the
  remaining papers be filtered. With three papers and a failure on the second, the
  filter does not return the first and the third: it raises.
\<close>

theorem filter_papers_using_llm_counterexample:
  "filter_papers_using_llm match_failing_on_1
     [JObj [(''id'', JStr ''0'')], JObj [(''id'', JStr ''1'')], JObj [(''id'', JStr ''2'')]]
     ''robotics'' ()
   = Inl (ServiceError ''timeout'')
   \<and> filter_papers_using_llm match_failing_on_1
     [JObj [(''id'', JStr ''0'')], JObj [(''id'', JStr ''1'')], JObj [(''id'', JStr ''2'')]]
     ''robotics'' ()
   \<noteq> Inr [JObj [(''id'', JStr ''0'')], JObj [(''id'', JStr ''2'')]]"
  by (simp add: filter_papers_using_llm_def match_failing_on_1_def)

text \<open>
  Claim C1, as the code has it. \<^verbatim>\<open>filter_papers_using_llm\<close> catches nothing: when the
  match function raises on some paper, the filter raises the exception of the first such
  paper in input order and returns no list; when it raises on no paper, the result is
  the list of the papers on which it returned true, in input order.
\<close>

theorem filter_papers_using_llm_propagates:
  "filter_papers_using_llm is_paper_match papers paper_to_hunt config =
     (case find (\<lambda>p. isl (is_paper_match p paper_to_hunt config)) papers of
        Some p \<Rightarrow> Inl (projl (is_paper_match p paper_to_hunt config))
      | None \<Rightarrow> Inr (filter (\<lambda>p. is_paper_match p paper_to_hunt config = Inr True) papers))"
  unfolding filter_papers_using_llm_def by (simp add: llm_loop_eq split: option.splits)

theorem filter_papers_using_llm_propagates_witness:
  "filter_papers_using_llm match_failing_on_1
     [JObj [(''id'', JStr ''0'')], JObj [(''id'', JStr ''2'')]] ''robotics'' ()
   = Inr [JObj [(''id'', JStr ''0'')], JObj [(''id'', JStr ''2'')]]
   \<and> filter_papers_using_llm match_failing_on_1
     [JObj [(''id'', JStr ''0'')], JObj [(''id'', JStr ''1'')], JObj [(''id'', JStr ''2'')]]
     ''robotics'' ()
   = Inl (ServiceError ''timeout'')"
  using filter_papers_using_llm_propagates
      [of match_failing_on_1 "[JObj [(''id'', JStr ''0'')], JObj [(''id'', JStr ''2'')]]" "''robotics''" "()"]
    filter_papers_using_llm_propagates
      [of match_failing_on_1
        "[JObj [(''id'', JStr ''0'')], JObj [(''id'', JStr ''1'')], JObj [(''id'', JStr ''2'')]]"
        "''robotics''" "()"]
  by (simp add: match_failing_on_1_def)

section \<open>Translation of abstracts\<close>

text \<open>Python's truth value of a JSON-like value.\<close>

fun truthy :: "json \<Rightarrow> bool" where
  "truthy JNull = False"
| "truthy (JNum n) = (n \<noteq> 0)"
| "truthy (JStr s) = (s \<noteq> [])"
| "truthy (JArr xs) = (xs \<noteq> [])"
| "truthy (JObj kvs) = (kvs \<noteq> [])"

text \<open>
  \<^verbatim>\<open>d[k] = v\<close> on a dictionary: an existing key keeps its place, a new key goes last.
\<close>

fun dict_update :: "(string \<times> json) list \<Rightarrow> string \<Rightarrow> json \<Rightarrow> (string \<times> json) list" where
  "dict_update [] k v = [(k, v)]"
| "dict_update ((k', v') # kvs) k v =
     (if k' = k then (k', v) # kvs else (k', v') # dict_update kvs k v)"

fun setitem :: "json \<Rightarrow> string \<Rightarrow> json \<Rightarrow> error + json" where
  "setitem (JObj kvs) k v = Inr (JObj (dict_update kvs k v))"
| "setitem _ k v = Inl TypeError"

text \<open>
  \<^verbatim>\<open>translate_abstract\<close> is imported from the module \<^verbatim>\<open>llm\<close>; it is a parameter that
  either raises or returns a value. \<^verbatim>\<open>translate_abstracts\<close> updates the dictionaries of
  its argument in place, and one dictionary may stand at several places of the list.
  So the dictionaries live in a store, which maps the address of an object to its
  value, and the list \<^verbatim>\<open>papers\<close> holds addresses. The loop returns the store as it
  leaves it together with the exception that ended it, if any.
\<close>

type_synonym store = "nat \<Rightarrow> json"

fun translate_loop ::
  "(json \<Rightarrow> 'c \<Rightarrow> error + json) \<Rightarrow> nat list \<Rightarrow> 'c \<Rightarrow> store \<Rightarrow> store \<times> error option"
where
  "translate_loop translate_abstract [] config st = (st, None)"
| "translate_loop translate_abstract (paper # papers) config st =
     (case getitem (st paper) ''summary'' of
        Inl e \<Rightarrow> (st, Some e)
      | Inr abstract \<Rightarrow>
          (case translate_abstract abstract config of
             Inl e \<Rightarrow> (st, Some e)
           | Inr zh_abstract \<Rightarrow>
               (case setitem (st paper) ''zh_summary'' JNull of
                  Inl e \<Rightarrow> (st, Some e)
                | Inr d1 \<Rightarrow>
                    (let st1 = st(paper := d1)
                     in if truthy zh_abstract
                        then (case setitem (st1 paper) ''zh_summary'' zh_abstract of
                                Inl e \<Rightarrow> (st1, Some e)
                              | Inr d2 \<Rightarrow>
                                  translate_loop translate_abstract papers config
                                    (st1(paper := d2)))
                        else translate_loop translate_abstract papers config st1))))"

text \<open>
  \<^verbatim>\<open>translate_abstracts\<close> returns the list it was given, or raises what the loop raised.
\<close>

definition translate_abstracts ::
  "(json \<Rightarrow> 'c \<Rightarrow> error + json) \<Rightarrow> nat list \<Rightarrow> 'c \<Rightarrow> store \<Rightarrow> store \<times> (error + nat list)"
where
  "translate_abstracts translate_abstract papers config st =
     (case translate_loop translate_abstract papers config st of
        (st', None) \<Rightarrow> (st', Inr papers)
      | (st', Some e) \<Rightarrow> (st', Inl e))"

subsection \<open>Vocabulary of the statements\<close>

text \<open>The outcome of the translation call made for a paper.\<close>

definition translation_of :: "(json \<Rightarrow> 'c \<Rightarrow> error + json) \<Rightarrow> 'c \<Rightarrow> json \<Rightarrow> error + json" where
  "translation_of translate_abstract config paper =
     (case getitem paper ''summary'' of
        Inl e \<Rightarrow> Inl e
      | Inr abstract \<Rightarrow> translate_abstract abstract config)"

text \<open>A paper with the outcome \<open>z\<close> of its translation stored.\<close>

definition with_zh_summary :: "json \<Rightarrow> json \<Rightarrow> json" where
  "with_zh_summary paper z =
     (case paper of
        JObj kvs \<Rightarrow> JObj (dict_update kvs ''zh_summary'' (if truthy z then z else JNull))
      | _ \<Rightarrow> paper)"

definition enriched :: "(json \<Rightarrow> 'c \<Rightarrow> error + json) \<Rightarrow> 'c \<Rightarrow> json \<Rightarrow> json" where
  "enriched translate_abstract config paper =
     (case translation_of translate_abstract config paper of
        Inl e \<Rightarrow> paper
      | Inr z \<Rightarrow> with_zh_summary paper z)"

text \<open>The papers of a list whose translation call does not raise, in a given store.\<close>

definition translates :: "(json \<Rightarrow> 'c \<Rightarrow> error + json) \<Rightarrow> 'c \<Rightarrow> store \<Rightarrow> nat \<Rightarrow> bool" where
  "translates translate_abstract config st paper =
     (\<not> isl (translation_of translate_abstract config (st paper)))"

text \<open>A translation service that fails on the abstract \<open>b\<close> and returns nothing useful otherwise.\<close>

definition translate_failing_on_b :: "json \<Rightarrow> unit \<Rightarrow> error + json" where
  "translate_failing_on_b abstract config =
     (if abstract = JStr ''b'' then Inl (ServiceError ''timeout'') else Inr (JStr ''''))"

text \<open>A store with three papers, at the addresses 0, 1 and 2.\<close>

definition three_papers :: store where
  "three_papers a =
     (if a = 0 then JObj [(''id'', JStr ''1''), (''summary'', JStr ''a'')]
      else if a = 1 then JObj [(''id'', JStr ''2''), (''summary'', JStr ''b'')]
      else JObj [(''id'', JStr ''3''), (''summary'', JStr ''c'')])"

subsection \<open>The loop, paper by paper\<close>

lemma dict_update_twice: "dict_update (dict_update kvs k v) k w = dict_update kvs k w"
  by (induction kvs) auto

lemma map_of_dict_update: "map_of (dict_update kvs k v) k' = (if k' = k then Some v else map_of kvs k')"
  by (induction kvs) auto

lemma translation_of_JObj:
  assumes "translation_of tr c p = Inr z"
  obtains kvs where "p = JObj kvs"
proof -
  from assms obtain a where "getitem p ''summary'' = Inr a"
    by (auto simp: translation_of_def split: sum.splits)
  then show ?thesis using that by (cases p) auto
qed

lemma enriched_translation: "translation_of tr c (enriched tr c p) = translation_of tr c p"
proof (cases "translation_of tr c p")
  case (Inl e)
  then show ?thesis by (simp add: enriched_def)
next
  case (Inr z)
  then obtain kvs where p: "p = JObj kvs" by (rule translation_of_JObj)
  have "getitem (enriched tr c p) ''summary'' = getitem p ''summary''"
    using Inr by (simp add: p enriched_def with_zh_summary_def map_of_dict_update)
  then show ?thesis by (simp add: translation_of_def)
qed

lemma enriched_idem: "enriched tr c (enriched tr c p) = enriched tr c p"
proof (cases "translation_of tr c p")
  case (Inl e)
  then show ?thesis by (simp add: enriched_def)
next
  case (Inr z)
  then obtain kvs where p: "p = JObj kvs" by (rule translation_of_JObj)
  have e: "enriched tr c p = JObj (dict_update kvs ''zh_summary'' (if truthy z then z else JNull))"
    using Inr by (simp add: p enriched_def with_zh_summary_def)
  have "translation_of tr c (enriched tr c p) = Inr z"
    using Inr by (simp add: enriched_translation)
  then have "enriched tr c (enriched tr c p) = with_zh_summary (enriched tr c p) z"
    by (simp add: enriched_def)
  also have "\<dots> = enriched tr c p"
    unfolding e by (simp add: with_zh_summary_def dict_update_twice)
  finally show ?thesis .
qed

lemma enriched_zh_summary:
  assumes "translation_of tr c p = Inr z"
  shows "getitem (enriched tr c p) ''zh_summary'' = Inr (if truthy z then z else JNull)"
proof -
  from assms obtain kvs where p: "p = JObj kvs" by (rule translation_of_JObj)
  show ?thesis using assms by (simp add: p enriched_def with_zh_summary_def map_of_dict_update)
qed

lemma translates_update:
  "translates tr c (st(a := enriched tr c (st a))) = translates tr c st"
  by (rule ext) (simp add: translates_def enriched_translation)

lemma translate_loop_step_raise:
  assumes "translation_of tr c (st a) = Inl e"
  shows "translate_loop tr (a # as) c st = (st, Some e)"
  using assms by (auto simp: translation_of_def split: sum.splits)

lemma translate_loop_step_ok:
  assumes "translation_of tr c (st a) = Inr z"
  shows "translate_loop tr (a # as) c st
           = translate_loop tr as c (st(a := enriched tr c (st a)))"
proof -
  from assms obtain kvs where p: "st a = JObj kvs" by (rule translation_of_JObj)
  from assms obtain s where g: "getitem (st a) ''summary'' = Inr s" and t: "tr s c = Inr z"
    by (auto simp: translation_of_def split: sum.splits)
  have e: "enriched tr c (st a)
      = JObj (dict_update kvs ''zh_summary'' (if truthy z then z else JNull))"
    using assms by (simp add: p enriched_def with_zh_summary_def)
  show ?thesis
    using g t by (simp add: e [unfolded p] p dict_update_twice Let_def)
qed

lemma translate_loop_eq:
  "translate_loop tr as c st =
     (\<lambda>a. if a \<in> set (takeWhile (translates tr c st) as) then enriched tr c (st a) else st a,
      case dropWhile (translates tr c st) as of
        [] \<Rightarrow> None
      | a # rest \<Rightarrow> Some (projl (translation_of tr c (st a))))"
proof (induction as arbitrary: st)
  case Nil
  show ?case by simp
next
  case (Cons a as)
  show ?case
  proof (cases "translation_of tr c (st a)")
    case (Inl e)
    then have "\<not> translates tr c st a" by (simp add: translates_def)
    with Inl translate_loop_step_raise [of tr c st a e as] show ?thesis
      by (simp del: translate_loop.simps)
  next
    case (Inr z)
    let ?st1 = "st(a := enriched tr c (st a))"
    have ok: "translates tr c st a" using Inr by (simp add: translates_def)
    have same: "translates tr c ?st1 = translates tr c st" by (rule translates_update)
    have "translate_loop tr (a # as) c st = translate_loop tr as c ?st1"
      using Inr by (rule translate_loop_step_ok)
    also have "\<dots> =
       (\<lambda>b. if b \<in> set (takeWhile (translates tr c st) as) then enriched tr c (?st1 b) else ?st1 b,
        case dropWhile (translates tr c st) as of
          [] \<Rightarrow> None
        | b # rest \<Rightarrow> Some (projl (translation_of tr c (?st1 b))))"
      unfolding Cons.IH [of ?st1] same ..
    also have "(\<lambda>b. if b \<in> set (takeWhile (translates tr c st) as)
                     then enriched tr c (?st1 b) else ?st1 b)
        = (\<lambda>b. if b \<in> set (takeWhile (translates tr c st) (a # as))
                 then enriched tr c (st b) else st b)"
      using ok by (auto simp: fun_eq_iff enriched_idem)
    also have "(case dropWhile (translates tr c st) as of
          [] \<Rightarrow> None
        | b # rest \<Rightarrow> Some (projl (translation_of tr c (?st1 b))))
        = (case dropWhile (translates tr c st) (a # as) of
          [] \<Rightarrow> None
        | b # rest \<Rightarrow> Some (projl (translation_of tr c (st b))))"
    proof -
      have "(case xs of [] \<Rightarrow> None
             | b # rest \<Rightarrow> Some (projl (translation_of tr c (?st1 b))))
          = (case xs of [] \<Rightarrow> None
             | b # rest \<Rightarrow> Some (projl (translation_of tr c (st b))))" for xs
        by (cases xs) (simp_all add: enriched_translation)
      moreover have "dropWhile (translates tr c st) (a # as) = dropWhile (translates tr c st) as"
        using ok by simp
      ultimately show ?thesis by simp
    qed
    finally show ?thesis .
  qed
qed

lemma translate_abstracts_eq:
  "translate_abstracts tr as c st =
     (\<lambda>a. if a \<in> set (takeWhile (translates tr c st) as) then enriched tr c (st a) else st a,
      case dropWhile (translates tr c st) as of
        [] \<Rightarrow> Inr as
      | a # rest \<Rightarrow> Inl (projl (translation_of tr c (st a))))"
proof (cases "dropWhile (translates tr c st) as")
  case Nil
  show ?thesis unfolding translate_abstracts_def translate_loop_eq Nil by simp
next
  case (Cons b bs)
  show ?thesis unfolding translate_abstracts_def translate_loop_eq Cons by simp
qed

lemma takeWhile_prefix:
  assumes "list_all P (take n xs)"
  shows "takeWhile P xs = take n xs @ takeWhile P (drop n xs)"
    and "dropWhile P xs = dropWhile P (drop n xs)"
proof -
  have mem: "\<And>x. x \<in> set (take n xs) \<Longrightarrow> P x"
    using assms by (simp add: list_all_iff)
  have "takeWhile P (take n xs @ drop n xs) = take n xs @ takeWhile P (drop n xs)"
    using mem by (rule takeWhile_append2)
  then show "takeWhile P xs = take n xs @ takeWhile P (drop n xs)" by simp
  have "dropWhile P (take n xs @ drop n xs) = dropWhile P (drop n xs)"
    using mem by (rule dropWhile_append2)
  then show "dropWhile P xs = dropWhile P (drop n xs)" by simp
qed

lemma translate_abstracts_stored:
  assumes k: "k < length papers"
    and ok: "list_all (translates tr c st) (take (Suc k) papers)"
    and z: "translation_of tr c (st (papers ! k)) = Inr z"
  shows "getitem (fst (translate_abstracts tr papers c st) (papers ! k)) ''zh_summary''
          = Inr (if truthy z then z else JNull)"
proof -
  have "papers ! k \<in> set (take (Suc k) papers)"
    using k by (auto simp: in_set_conv_nth intro!: exI [of _ k])
  then have "papers ! k \<in> set (takeWhile (translates tr c st) papers)"
    unfolding takeWhile_prefix(1) [OF ok] by simp
  then have "fst (translate_abstracts tr papers c st) (papers ! k)
      = enriched tr c (st (papers ! k))"
    by (simp add: translate_abstracts_eq)
  then show ?thesis using enriched_zh_summary [OF z] by simp
qed

lemma translate_abstracts_raises:
  assumes k: "k < length papers"
    and ok: "list_all (translates tr c st) (take k papers)"
    and e: "translation_of tr c (st (papers ! k)) = Inl e"
  shows "translate_abstracts tr papers c st
           = (\<lambda>a. if a \<in> set (take k papers) then enriched tr c (st a) else st a, Inl e)"
proof -
  have d: "drop k papers = papers ! k # drop (Suc k) papers"
    using k by (simp add: Cons_nth_drop_Suc)
  have n: "\<not> translates tr c st (papers ! k)"
    using e by (simp add: translates_def)
  have t: "takeWhile (translates tr c st) papers = take k papers"
    unfolding takeWhile_prefix(1) [OF ok] d using n by simp
  have r: "dropWhile (translates tr c st) papers = papers ! k # drop (Suc k) papers"
    unfolding takeWhile_prefix(2) [OF ok] d using n by simp
  show ?thesis
    unfolding translate_abstracts_eq t r using e by simp
qed

lemma translate_abstracts_returns:
  assumes ok: "list_all (translates tr c st) papers"
  shows "snd (translate_abstracts tr papers c st) = Inr papers"
proof -
  have d: "dropWhile (translates tr c st) papers = []"
    using ok by (simp add: list_all_iff)
  show ?thesis unfolding translate_abstracts_eq d by simp
qed

section \<open>Properties of the translation stage\<close>

text \<open>
  Claim C2 asks that a paper whose translation call raises end with \<^verbatim>\<open>zh_summary\<close> set
  to null and that the rest of the batch be translated. With three papers and a failure
  on the second, the run ends with the exception; the first paper has its null, the
  second and the third have no \<^verbatim>\<open>zh_summary\<close> key.
\<close>

theorem translate_abstracts_counterexample:
  "snd (translate_abstracts translate_failing_on_b [0, 1, 2] () three_papers)
     = Inl (ServiceError ''timeout'')
   \<and> fst (translate_abstracts translate_failing_on_b [0, 1, 2] () three_papers) 0
     = JObj [(''id'', JStr ''1''), (''summary'', JStr ''a''), (''zh_summary'', JNull)]
   \<and> getitem (fst (translate_abstracts translate_failing_on_b [0, 1, 2] () three_papers) 1)
        ''zh_summary'' = Inl (KeyError ''zh_summary'')
   \<and> getitem (fst (translate_abstracts translate_failing_on_b [0, 1, 2] () three_papers) 2)
        ''zh_summary'' = Inl (KeyError ''zh_summary'')"
  by (simp add: translate_abstracts_def translate_failing_on_b_def three_papers_def Let_def)

text \<open>
  Claim C2, as the code has it. A paper whose translation call returns a falsy value has
  \<^verbatim>\<open>zh_summary\<close> set to null, and one whose call returns a truthy value has it set to that
  value, provided no call has raised up to and including this paper. A call that raises
  is not caught: \<^verbatim>\<open>translate_abstracts\<close> raises that exception; the dictionaries that
  stand in the list before the failing paper hold their translation, also where they
  stand again later in the list, and every other dictionary is as it was. When no call
  raises the function returns the list it was given.
\<close>

theorem translate_abstracts_null_on_falsy:
  "(k < length papers
      \<and> list_all (translates tr c st) (take (Suc k) papers)
      \<and> translation_of tr c (st (papers ! k)) = Inr z
    \<longrightarrow> getitem (fst (translate_abstracts tr papers c st) (papers ! k)) ''zh_summary''
          = Inr (if truthy z then z else JNull))
   \<and> (k < length papers
      \<and> list_all (translates tr c st) (take k papers)
      \<and> translation_of tr c (st (papers ! k)) = Inl e
    \<longrightarrow> translate_abstracts tr papers c st
          = (\<lambda>a. if a \<in> set (take k papers) then enriched tr c (st a) else st a, Inl e))
   \<and> (list_all (translates tr c st) papers
    \<longrightarrow> snd (translate_abstracts tr papers c st) = Inr papers)"
  using translate_abstracts_stored [of k papers tr c st z]
    translate_abstracts_raises [of k papers tr c st e]
    translate_abstracts_returns [of tr c st papers]
  by blast

theorem translate_abstracts_null_on_falsy_witness:
  "translation_of translate_failing_on_b () (three_papers 0) = Inr (JStr [])
   \<and> translation_of translate_failing_on_b () (three_papers 2) = Inr (JStr [])
   \<and> translation_of translate_failing_on_b () (three_papers 1) = Inl (ServiceError ''timeout'')
   \<and> getitem (fst (translate_abstracts translate_failing_on_b [0, 2] () three_papers) 2)
        ''zh_summary'' = Inr JNull
   \<and> snd (translate_abstracts translate_failing_on_b [0, 2] () three_papers) = Inr [0, 2]
   \<and> snd (translate_abstracts translate_failing_on_b [0, 1, 0] () three_papers)
        = Inl (ServiceError ''timeout'')
   \<and> getitem (fst (translate_abstracts translate_failing_on_b [0, 1, 0] () three_papers) 0)
        ''zh_summary'' = Inr JNull
   \<and> fst (translate_abstracts translate_failing_on_b [0, 1, 0] () three_papers) 1
        = three_papers 1
   \<and> fst (translate_abstracts translate_failing_on_b [0, 1, 0] () three_papers) 2
        = three_papers 2"
proof -
  have a: "translation_of translate_failing_on_b () (three_papers 0) = Inr (JStr [])"
    by (simp add: translation_of_def translate_failing_on_b_def three_papers_def)
  have c: "translation_of translate_failing_on_b () (three_papers 2) = Inr (JStr [])"
    by (simp add: translation_of_def translate_failing_on_b_def three_papers_def)
  have b: "translation_of translate_failing_on_b () (three_papers 1)
      = Inl (ServiceError ''timeout'')"
    by (simp add: translation_of_def translate_failing_on_b_def three_papers_def)
  have e0: "getitem (enriched translate_failing_on_b () (three_papers 0)) ''zh_summary''
      = Inr JNull"
    using enriched_zh_summary [OF a] by simp
  have ok02: "list_all (translates translate_failing_on_b () three_papers) (take (Suc 1) [0, 2])"
    using a c by (simp add: translates_def)
  have ok02': "list_all (translates translate_failing_on_b () three_papers) [0, 2]"
    using a c by (simp add: translates_def)
  have ok0: "list_all (translates translate_failing_on_b () three_papers) (take 1 [0, 1, 0])"
    using a by (simp add: translates_def)
  note t1 = translate_abstracts_null_on_falsy
    [of 1 "[0, 2]" translate_failing_on_b "()" three_papers "JStr []" "ServiceError ''timeout''"]
  note t2 = translate_abstracts_null_on_falsy
    [of 1 "[0, 1, 0]" translate_failing_on_b "()" three_papers "JStr []"
        "ServiceError ''timeout''"]
  have r1: "getitem (fst (translate_abstracts translate_failing_on_b [0, 2] () three_papers) 2)
        ''zh_summary'' = Inr JNull"
    using t1 ok02 c by simp
  have r2: "snd (translate_abstracts translate_failing_on_b [0, 2] () three_papers) = Inr [0, 2]"
    using t1 ok02' by simp
  have r3: "translate_abstracts translate_failing_on_b [0, 1, 0] () three_papers
      = (\<lambda>a. if a \<in> set (take 1 [0, 1, 0])
              then enriched translate_failing_on_b () (three_papers a) else three_papers a,
         Inl (ServiceError ''timeout''))"
    using t2 ok0 b by simp
  show ?thesis
    using a b c r1 r2 e0 r3 by simp
qed

section \<open>The record store\<close>

text \<open>
  The file system maps a path to the text of the file stored there; a path exists when
  it is mapped. \<^verbatim>\<open>json.loads\<close> and \<^verbatim>\<open>json.dumps\<close> (with the formatting options of
  line 103) belong to the Python library and are parameters: \<open>json_loads\<close> parses a text
  or raises, \<open>json_dumps\<close> serialises a value.
\<close>

type_synonym fs = "string \<rightharpoonup> string"

text \<open>\<^verbatim>\<open>for d in content\<close>: a list yields its elements, a dictionary its keys, a string its
  characters; null and numbers are not iterable.\<close>

fun iter_values :: "json \<Rightarrow> error + json list" where
  "iter_values (JArr xs) = Inr xs"
| "iter_values (JObj kvs) = Inr (map (\<lambda>kv. JStr (fst kv)) kvs)"
| "iter_values (JStr s) = Inr (map (\<lambda>c. JStr [c]) s)"
| "iter_values _ = Inl TypeError"

text \<open>\<^verbatim>\<open>set(d['id'] for d in content)\<close>, element by element.\<close>

fun collect_ids :: "json list \<Rightarrow> json set \<Rightarrow> error + json set" where
  "collect_ids [] content_id = Inr content_id"
| "collect_ids (d # ds) content_id =
     (case getitem d ''id'' of
        Inl e \<Rightarrow> Inl e
      | Inr i \<Rightarrow> if hashable i then collect_ids ds (insert i content_id) else Inl TypeError)"

text \<open>\<^verbatim>\<open>[d for d in papers if d['id'] not in content_id]\<close>.\<close>

fun exclude_ids :: "json list \<Rightarrow> json set \<Rightarrow> error + json list" where
  "exclude_ids [] content_id = Inr []"
| "exclude_ids (d # ds) content_id =
     (case getitem d ''id'' of
        Inl e \<Rightarrow> Inl e
      | Inr i \<Rightarrow>
          (case set_contains content_id i of
             Inl e \<Rightarrow> Inl e
           | Inr stored \<Rightarrow>
               (case exclude_ids ds content_id of
                  Inl e \<Rightarrow> Inl e
                | Inr rest \<Rightarrow> Inr (if \<not> stored then d # rest else rest))))"

text \<open>
  \<^verbatim>\<open>deduplicate_papers\<close> returns its result together with the file system it leaves.
\<close>

definition deduplicate_papers ::
  "(string \<Rightarrow> error + json) \<Rightarrow> fs \<Rightarrow> json list \<Rightarrow> string \<Rightarrow> (error + json list) \<times> fs"
where
  "deduplicate_papers json_loads fs papers file_path =
     (case fs file_path of
        None \<Rightarrow> (Inr papers, fs)
      | Some content \<Rightarrow>
          if content \<noteq> [] then
            (case json_loads content of
               Inl e \<Rightarrow> (Inl e, fs)
             | Inr content \<Rightarrow>
                 (case iter_values content of
                    Inl e \<Rightarrow> (Inl e, fs)
                  | Inr ds \<Rightarrow>
                      (case collect_ids ds {} of
                         Inl e \<Rightarrow> (Inl e, fs)
                       | Inr content_id \<Rightarrow> (exclude_ids papers content_id, fs))))
          else (Inr papers, fs))"

text \<open>\<^verbatim>\<open>data + content\<close> with a list on the left: the right operand must be a list too.\<close>

fun list_concat :: "json list \<Rightarrow> json \<Rightarrow> error + json list" where
  "list_concat data (JArr xs) = Inr (data @ xs)"
| "list_concat data _ = Inl TypeError"

text \<open>
  Lines 92 to 100 of \<^verbatim>\<open>prepend_to_json_file\<close>, the reading of the store: the parsed
  content of the file, and the empty list for a missing or an empty file.
\<close>

definition stored_content :: "(string \<Rightarrow> error + json) \<Rightarrow> fs \<Rightarrow> string \<Rightarrow> error + json" where
  "stored_content json_loads fs file_path =
     (case fs file_path of
        None \<Rightarrow> Inr (JArr [])
      | Some content \<Rightarrow> if content \<noteq> [] then json_loads content else Inr (JArr []))"

text \<open>
  \<^verbatim>\<open>prepend_to_json_file\<close>. Opening the file for writing truncates it before the
  argument of \<^verbatim>\<open>json.dump\<close> is evaluated, so an exception raised by \<^verbatim>\<open>data + content\<close>
  leaves an empty file behind. The first component is the exception raised, if any.
\<close>

definition prepend_to_json_file ::
  "(string \<Rightarrow> error + json) \<Rightarrow> (json \<Rightarrow> string) \<Rightarrow> fs \<Rightarrow> string \<Rightarrow> json list
     \<Rightarrow> error option \<times> fs"
where
  "prepend_to_json_file json_loads json_dumps fs file_path data =
     (case stored_content json_loads fs file_path of
        Inl e \<Rightarrow> (Some e, fs)
      | Inr content \<Rightarrow>
          (case list_concat data content of
             Inl e \<Rightarrow> (Some e, fs(file_path \<mapsto> []))
           | Inr merged \<Rightarrow> (None, fs(file_path \<mapsto> json_dumps (JArr merged)))))"

text \<open>
  What the library promises of a value: its serialised text is not empty and parses
  back to the value.
\<close>

definition round_trips :: "(string \<Rightarrow> error + json) \<Rightarrow> (json \<Rightarrow> string) \<Rightarrow> json \<Rightarrow> bool" where
  "round_trips json_loads json_dumps v =
     (json_dumps v \<noteq> [] \<and> json_loads (json_dumps v) = Inr v)"

subsection \<open>Example texts\<close>

text \<open>
  The texts that \<^verbatim>\<open>json.dumps(v, indent=4, ensure_ascii=False)\<close> produces for the lists
  \<^verbatim>\<open>[{"id": "a"}]\<close> and \<^verbatim>\<open>[{"id": "b"}, {"id": "a"}]\<close>, and the two library functions
  restricted to them; \<open>text_truncated\<close> is a store file cut off in the middle of a
  record. \<open>example_loads\<close> rejects every other text, which is right for the truncated
  text and arbitrary elsewhere.
\<close>

definition text_a :: string where
  \<open>text_a = ''[\<newline>    {\<newline>        "id": "a"\<newline>    }\<newline>]''\<close>

definition text_ba :: string where
  \<open>text_ba = ''[\<newline>    {\<newline>        "id": "b"\<newline>    },\<newline>    {\<newline>        "id": "a"\<newline>    }\<newline>]''\<close>

definition text_truncated :: string where
  \<open>text_truncated = ''[\<newline>    {\<newline>        "id": ''\<close>

definition example_loads :: "string \<Rightarrow> error + json" where
  "example_loads s =
     (if s = text_a then Inr (JArr [JObj [(''id'', JStr ''a'')]])
      else if s = text_ba then Inr (JArr [JObj [(''id'', JStr ''b'')], JObj [(''id'', JStr ''a'')]])
      else Inl JSONDecodeError)"

definition example_dumps :: "json \<Rightarrow> string" where
  "example_dumps v =
     (if v = JArr [JObj [(''id'', JStr ''a'')]] then text_a
      else if v = JArr [JObj [(''id'', JStr ''b'')], JObj [(''id'', JStr ''a'')]] then text_ba
      else ''null'')"

subsection \<open>Cross-run deduplication: the two comprehensions\<close>

lemma collect_ids_eq:
  "list_all has_id ds \<Longrightarrow> collect_ids ds acc = Inr (acc \<union> set (map id_of ds))"
proof (induction ds arbitrary: acc)
  case Nil
  show ?case by simp
next
  case (Cons d ds)
  from Cons.prems have hd: "has_id d" and hds: "list_all has_id ds" by simp_all
  from hd obtain i where gi: "getitem d ''id'' = Inr i" and hi: "hashable i"
    by (auto simp: has_id_def split: sum.splits)
  have "id_of d = i" using gi by (simp add: id_of_def)
  then show ?case using Cons.IH [OF hds] gi hi by simp
qed

lemma exclude_ids_eq:
  "list_all has_id ps \<Longrightarrow> exclude_ids ps S = Inr (filter (\<lambda>d. id_of d \<notin> S) ps)"
proof (induction ps)
  case Nil
  show ?case by simp
next
  case (Cons d ds)
  from Cons.prems have hd: "has_id d" and hds: "list_all has_id ds" by simp_all
  from hd obtain i where gi: "getitem d ''id'' = Inr i" and hi: "hashable i"
    by (auto simp: has_id_def split: sum.splits)
  have "id_of d = i" using gi by (simp add: id_of_def)
  then show ?case using Cons.IH [OF hds] gi hi by (simp add: set_contains_def)
qed

lemma deduplicate_papers_no_store:
  assumes "fs file_path = None \<or> fs file_path = Some []"
  shows "deduplicate_papers json_loads fs papers file_path = (Inr papers, fs)"
  using assms by (auto simp: deduplicate_papers_def)

lemma deduplicate_papers_store:
  assumes "fs file_path = Some content" and "content \<noteq> []"
    and "json_loads content = Inr (JArr stored)"
    and "list_all has_id stored" and "list_all has_id papers"
  shows "deduplicate_papers json_loads fs papers file_path
           = (Inr (filter (\<lambda>d. id_of d \<notin> set (map id_of stored)) papers), fs)"
  using assms(1-3) collect_ids_eq [OF assms(4), of "{}"] exclude_ids_eq [OF assms(5)]
  by (simp add: deduplicate_papers_def)

lemma deduplicate_papers_reads_only:
  "snd (deduplicate_papers json_loads fs papers file_path) = fs"
  by (simp add: deduplicate_papers_def split: option.splits sum.splits)

subsection \<open>Prepending to the store\<close>

lemma prepend_step:
  assumes "stored_content json_loads fs file_path = Inr (JArr old)"
    and "round_trips json_loads json_dumps (JArr (new @ old))"
  shows "prepend_to_json_file json_loads json_dumps fs file_path new
           = (None, fs(file_path \<mapsto> json_dumps (JArr (new @ old))))
         \<and> stored_content json_loads (fs(file_path \<mapsto> json_dumps (JArr (new @ old)))) file_path
           = Inr (JArr (new @ old))"
  using assms by (simp add: prepend_to_json_file_def stored_content_def round_trips_def)

lemma stored_content_fresh:
  "fs file_path = None \<or> fs file_path = Some [] \<Longrightarrow>
   stored_content json_loads fs file_path = Inr (JArr [])"
  by (auto simp: stored_content_def)

section \<open>Properties of the record store\<close>

lemma prepend_twice:
  assumes old: "stored_content json_loads fs file_path = Inr (JArr old)"
    and rA: "round_trips json_loads json_dumps (JArr (A @ old))"
    and rBA: "round_trips json_loads json_dumps (JArr (B @ A @ old))"
  shows "\<exists>fs1 fs2.
          prepend_to_json_file json_loads json_dumps fs file_path A = (None, fs1)
        \<and> stored_content json_loads fs1 file_path = Inr (JArr (A @ old))
        \<and> prepend_to_json_file json_loads json_dumps fs1 file_path B = (None, fs2)
        \<and> stored_content json_loads fs2 file_path = Inr (JArr (B @ A @ old))"
proof -
  let ?fs1 = "fs(file_path \<mapsto> json_dumps (JArr (A @ old)))"
  let ?fs2 = "?fs1(file_path \<mapsto> json_dumps (JArr (B @ A @ old)))"
  from prepend_step [OF old rA]
  have w1: "prepend_to_json_file json_loads json_dumps fs file_path A = (None, ?fs1)"
    and r1: "stored_content json_loads ?fs1 file_path = Inr (JArr (A @ old))" by simp_all
  from prepend_step [OF r1 rBA]
  have w2: "prepend_to_json_file json_loads json_dumps ?fs1 file_path B = (None, ?fs2)"
    and r2: "stored_content json_loads ?fs2 file_path = Inr (JArr (B @ A @ old))" by simp_all
  from w1 r1 w2 r2 show ?thesis by blast
qed

text \<open>
  Claim C5. When the path does not exist or holds an empty file, reading the file after
  \<^verbatim>\<open>prepend_to_json_file(path, new)\<close> yields exactly \<open>new\<close>, and after prepending \<open>A\<close> and
  then \<open>B\<close> reading yields \<open>B @ A\<close>. More generally, on a store that reads as \<open>old\<close> the
  two calls leave \<open>B @ A @ old\<close>: the new entries stand before all entries stored
  earlier, each list in its own order. The JSON library is asked to serialise the
  written lists to a non-empty text that parses back to them.
\<close>

theorem prepend_to_json_file_read_back:
  "((fs file_path = None \<or> fs file_path = Some [])
     \<and> round_trips json_loads json_dumps (JArr A)
     \<and> round_trips json_loads json_dumps (JArr (B @ A))
    \<longrightarrow> (\<exists>fs1 fs2.
          prepend_to_json_file json_loads json_dumps fs file_path A = (None, fs1)
        \<and> stored_content json_loads fs1 file_path = Inr (JArr A)
        \<and> prepend_to_json_file json_loads json_dumps fs1 file_path B = (None, fs2)
        \<and> stored_content json_loads fs2 file_path = Inr (JArr (B @ A))))
   \<and> (stored_content json_loads fs file_path = Inr (JArr old)
     \<and> round_trips json_loads json_dumps (JArr (A @ old))
     \<and> round_trips json_loads json_dumps (JArr (B @ A @ old))
    \<longrightarrow> (\<exists>fs1 fs2.
          prepend_to_json_file json_loads json_dumps fs file_path A = (None, fs1)
        \<and> stored_content json_loads fs1 file_path = Inr (JArr (A @ old))
        \<and> prepend_to_json_file json_loads json_dumps fs1 file_path B = (None, fs2)
        \<and> stored_content json_loads fs2 file_path = Inr (JArr (B @ A @ old))))"
proof -
  have fresh: "fs file_path = None \<or> fs file_path = Some [] \<Longrightarrow>
      stored_content json_loads fs file_path = Inr (JArr [])"
    by (rule stored_content_fresh)
  show ?thesis
    using fresh prepend_twice [of json_loads fs file_path "[]" json_dumps A B]
      prepend_twice [of json_loads fs file_path old json_dumps A B]
    by simp
qed

theorem prepend_to_json_file_read_back_witness:
  "round_trips example_loads example_dumps (JArr [JObj [(''id'', JStr ''a'')]])
   \<and> round_trips example_loads example_dumps
        (JArr ([JObj [(''id'', JStr ''b'')]] @ [JObj [(''id'', JStr ''a'')]]))
   \<and> (\<exists>fs1 fs2.
          prepend_to_json_file example_loads example_dumps Map.empty ''papers.json''
            [JObj [(''id'', JStr ''a'')]] = (None, fs1)
        \<and> stored_content example_loads fs1 ''papers.json'' = Inr (JArr [JObj [(''id'', JStr ''a'')]])
        \<and> prepend_to_json_file example_loads example_dumps fs1 ''papers.json''
            [JObj [(''id'', JStr ''b'')]] = (None, fs2)
        \<and> stored_content example_loads fs2 ''papers.json''
            = Inr (JArr [JObj [(''id'', JStr ''b'')], JObj [(''id'', JStr ''a'')]]))"
proof -
  have ne: "text_a \<noteq> [] \<and> text_ba \<noteq> [] \<and> text_a \<noteq> text_ba \<and> text_ba \<noteq> text_a"
    by (simp add: text_a_def text_ba_def)
  have a: "round_trips example_loads example_dumps (JArr [JObj [(''id'', JStr ''a'')]])"
    using ne by (simp add: round_trips_def example_loads_def example_dumps_def)
  have b: "round_trips example_loads example_dumps
        (JArr ([JObj [(''id'', JStr ''b'')]] @ [JObj [(''id'', JStr ''a'')]]))"
    using ne by (simp add: round_trips_def example_loads_def example_dumps_def)
  show ?thesis
    using a b prepend_to_json_file_read_back
      [of Map.empty "''papers.json''" example_loads example_dumps
          "[JObj [(''id'', JStr ''a'')]]" "[JObj [(''id'', JStr ''b'')]]" "[]"]
    by simp
qed

text \<open>
  Claim C6. \<^verbatim>\<open>deduplicate_papers\<close> returns the candidates, in input order, whose id is
  not among the ids stored in the file; with a missing or an empty file it returns all
  candidates; and it leaves the file system as it found it.
\<close>

theorem deduplicate_papers_excludes_stored:
  "(fs file_path = None \<or> fs file_path = Some []
      \<longrightarrow> deduplicate_papers json_loads fs papers file_path = (Inr papers, fs))
   \<and> (fs file_path = Some content \<and> content \<noteq> [] \<and> json_loads content = Inr (JArr stored)
        \<and> list_all has_id stored \<and> list_all has_id papers
      \<longrightarrow> deduplicate_papers json_loads fs papers file_path
            = (Inr (filter (\<lambda>d. id_of d \<notin> set (map id_of stored)) papers), fs))
   \<and> snd (deduplicate_papers json_loads fs papers file_path) = fs"
  using deduplicate_papers_no_store [of fs file_path json_loads papers]
    deduplicate_papers_store [of fs file_path content json_loads stored papers]
    deduplicate_papers_reads_only [of json_loads fs papers file_path]
  by blast

theorem deduplicate_papers_excludes_stored_witness:
  "example_loads text_ba = Inr (JArr [JObj [(''id'', JStr ''b'')], JObj [(''id'', JStr ''a'')]])
   \<and> text_ba \<noteq> []
   \<and> list_all has_id [JObj [(''id'', JStr ''b'')], JObj [(''id'', JStr ''a'')]]
   \<and> list_all has_id [JObj [(''id'', JStr ''a'')], JObj [(''id'', JStr ''c'')]]
   \<and> deduplicate_papers example_loads (Map.empty(''papers.json'' \<mapsto> text_ba))
        [JObj [(''id'', JStr ''a'')], JObj [(''id'', JStr ''c'')]] ''papers.json''
      = (Inr [JObj [(''id'', JStr ''c'')]], Map.empty(''papers.json'' \<mapsto> text_ba))
   \<and> deduplicate_papers example_loads Map.empty
        [JObj [(''id'', JStr ''a'')], JObj [(''id'', JStr ''c'')]] ''papers.json''
      = (Inr [JObj [(''id'', JStr ''a'')], JObj [(''id'', JStr ''c'')]], Map.empty)"
proof -
  have ne: "text_ba \<noteq> [] \<and> text_ba \<noteq> text_a"
    by (simp add: text_a_def text_ba_def)
  have l: "example_loads text_ba
      = Inr (JArr [JObj [(''id'', JStr ''b'')], JObj [(''id'', JStr ''a'')]])"
    using ne by (simp add: example_loads_def)
  have s: "list_all has_id [JObj [(''id'', JStr ''b'')], JObj [(''id'', JStr ''a'')]]"
    by (simp add: has_id_def)
  have c: "list_all has_id [JObj [(''id'', JStr ''a'')], JObj [(''id'', JStr ''c'')]]"
    by (simp add: has_id_def)
  show ?thesis
    using ne l s c
      deduplicate_papers_excludes_stored
        [of "Map.empty(''papers.json'' \<mapsto> text_ba)" "''papers.json''" example_loads
            "[JObj [(''id'', JStr ''a'')], JObj [(''id'', JStr ''c'')]]" text_ba
            "[JObj [(''id'', JStr ''b'')], JObj [(''id'', JStr ''a'')]]"]
      deduplicate_papers_excludes_stored
        [of Map.empty "''papers.json''" example_loads
            "[JObj [(''id'', JStr ''a'')], JObj [(''id'', JStr ''c'')]]" text_ba
            "[JObj [(''id'', JStr ''b'')], JObj [(''id'', JStr ''a'')]]"]
    by (simp add: id_of_def)
qed

text \<open>
  Claim C7. When the store file exists, is not empty and does not parse, the exception
  of the parser leaves \<^verbatim>\<open>deduplicate_papers\<close>: no list is returned, whatever the
  candidates are.
\<close>

theorem deduplicate_papers_malformed_store:
  assumes "fs file_path = Some content" and "content \<noteq> []"
    and "json_loads content = Inl e"
  shows "deduplicate_papers json_loads fs papers file_path = (Inl e, fs)"
  using assms by (simp add: deduplicate_papers_def)

theorem deduplicate_papers_malformed_store_witness:
  "text_truncated \<noteq> []
   \<and> example_loads text_truncated = Inl JSONDecodeError
   \<and> deduplicate_papers example_loads (Map.empty(''papers.json'' \<mapsto> text_truncated))
        [JObj [(''id'', JStr ''a'')]] ''papers.json''
      = (Inl JSONDecodeError, Map.empty(''papers.json'' \<mapsto> text_truncated))"
proof -
  have n: "text_truncated \<noteq> []"
    by (simp add: text_truncated_def)
  have l: "example_loads text_truncated = Inl JSONDecodeError"
    by (simp add: example_loads_def text_a_def text_ba_def text_truncated_def)
  show ?thesis
    using l n
      deduplicate_papers_malformed_store
        [of "Map.empty(''papers.json'' \<mapsto> text_truncated)" "''papers.json''" text_truncated
            example_loads JSONDecodeError "[JObj [(''id'', JStr ''a'')]]"]
    by simp
qed

section \<open>The table sink\<close>
























subsection \<open>Vocabulary of the statements\<close>








subsection \<open>One step of the run\<close>













subsection \<open>An example service\<close>













section \<open>Properties of the table sink\<close>





end
